theory Spec2Isabelle
  imports Complex_Main "HOL-Library.Product_Lexorder"
begin

section \<open>Python strings\<close>

text \<open>
  A Python \<open>str\<close> is modelled as a HOL \<open>string\<close>; every character is taken to be an
  ASCII code point. \<open>isspace\<close> is \<open>str.isspace\<close> on that range (tab, line feed, vertical
  tab, form feed, carriage return, the four separators 0x1C..0x1F and the blank),
  \<open>isupper\<close> is \<open>str.isupper\<close> on one character and \<open>lower\<close> is \<open>str.lower\<close>.
\<close>

definition isspace :: "char \<Rightarrow> bool" where
  "isspace c = ((of_char c :: nat) \<in> {9, 10, 11, 12, 13, 28, 29, 30, 31, 32})"

definition isupper :: "char \<Rightarrow> bool" where
  "isupper c = (65 \<le> (of_char c :: nat) \<and> (of_char c :: nat) \<le> 90)"

definition isdigit :: "char \<Rightarrow> bool" where
  "isdigit c = (48 \<le> (of_char c :: nat) \<and> (of_char c :: nat) \<le> 57)"

definition lower_char :: "char \<Rightarrow> char" where
  "lower_char c = (if isupper c then char_of ((of_char c :: nat) + 32) else c)"

definition lower :: "string \<Rightarrow> string" where
  "lower s = map lower_char s"

text \<open>\<open>str.split()\<close> without argument: the maximal runs of non-whitespace characters.\<close>

function split :: "string \<Rightarrow> string list" where
  "split [] = []"
| "split (c # cs) =
     (if isspace c then split cs
      else (c # takeWhile (\<lambda>x. \<not> isspace x) cs) # split (dropWhile (\<lambda>x. \<not> isspace x) cs))"
  by pat_completeness auto
termination
  by (relation "measure length") (auto simp: length_dropWhile_le le_imp_less_Suc)

text \<open>\<open>sep.join(words)\<close>.\<close>

fun join :: "string \<Rightarrow> string list \<Rightarrow> string" where
  "join sep [] = []"
| "join sep [w] = w"
| "join sep (w # v # ws) = w @ sep @ join sep (v # ws)"

text \<open>\<open>str.strip()\<close> and \<open>str.replace(old, new)\<close> for one-character \<open>old\<close> and \<open>new\<close>.\<close>

definition strip :: "string \<Rightarrow> string" where
  "strip s = rev (dropWhile isspace (rev (dropWhile isspace s)))"

definition replace_char :: "char \<Rightarrow> char \<Rightarrow> string \<Rightarrow> string" where
  "replace_char old new s = map (\<lambda>c. if c = old then new else c) s"

text \<open>\<open>needle in haystack\<close> on strings.\<close>

fun contains :: "string \<Rightarrow> string \<Rightarrow> bool" where
  "contains [] needle = (needle = [])"
| "contains (c # cs) needle =
     (take (length needle) (c # cs) = needle \<or> contains cs needle)"

text \<open>
  A slice \<open>xs[i:j]\<close> with Python's treatment of negative and out-of-range bounds.
\<close>

definition slice_bound :: "nat \<Rightarrow> int \<Rightarrow> nat" where
  "slice_bound n i = (if i < 0 then nat (max (i + int n) 0) else min (nat i) n)"

definition py_slice :: "'a list \<Rightarrow> int \<Rightarrow> int \<Rightarrow> 'a list" where
  "py_slice xs i j =
     (let lo = slice_bound (length xs) i; hi = slice_bound (length xs) j
      in take (hi - lo) (drop lo xs))"

section \<open>utils.py\<close>

subsection \<open>chunk\_text\<close>

text \<open>
  The \<open>while\<close> loop of \<open>chunk_text\<close>. The loop has no bound of its own, so it is a
  partial function: \<open>None\<close> stands for a run that never returns.
\<close>

partial_function (option) chunk_loop ::
  "string list \<Rightarrow> int \<Rightarrow> int \<Rightarrow> int \<Rightarrow> string list \<Rightarrow> string list option" where
  "chunk_loop words max_tokens overlap start chunks =
     (if start < int (length words) then
        (let end = min (start + max_tokens) (int (length words));
             chunk = join '' '' (py_slice words start end);
             chunks' = chunks @ [chunk]
         in if end \<ge> int (length words) then Some chunks'
            else chunk_loop words max_tokens overlap (end - overlap) chunks')
      else Some chunks)"

definition chunk_text :: "string \<Rightarrow> int \<Rightarrow> int \<Rightarrow> string list option" where
  "chunk_text text max_tokens overlap =
     (if text = [] then Some []
      else let words = split text in
        if int (length words) \<le> max_tokens then Some [text]
        else chunk_loop words max_tokens overlap 0 [])"

subsection \<open>validate\_pdf\<close>

text \<open>
  What the program can observe of a path: whether the file exists, its size in bytes, and
  what \<open>fitz.open\<close> gives. \<open>pdf_doc = None\<close> is a file that PyMuPDF cannot open (it
  raises); otherwise the document is its list of pages. A page holds the text blocks
  of \<open>page.get_text("dict")\<close> and the plain text of \<open>page.get_text()\<close>.
\<close>

record span =
  span_text :: string
  span_size :: real
  span_font :: string
  span_flags :: nat
  span_bbox :: "real \<times> real \<times> real \<times> real"

text \<open>A block of the text dictionary has lines (each a list of spans) or, as an image block, none.\<close>

record page =
  page_blocks :: "span list list option list"
  page_text :: string

record pdf =
  pdf_name :: string
  pdf_exists :: bool
  pdf_st_size :: nat
  pdf_doc :: "page list option"

definition validate_pdf :: "pdf \<Rightarrow> bool" where
  "validate_pdf pdf_path =
     (if \<not> pdf_exists pdf_path then False
      else if pdf_st_size pdf_path = 0 then False
      else case pdf_doc pdf_path of
        None \<Rightarrow> False
      | Some doc \<Rightarrow>
          (let page_count = length doc
           in if page_count = 0 \<or> page_count > 50 then False else True))"

section \<open>outline.py\<close>

datatype error =
    ValueError string
  | FileDataError
  | StopIteration
  | IndexError
  | KeyError string

record block =
  block_text :: string
  fontsize :: real
  fontname :: string
  flags :: nat
  bbox :: "real \<times> real \<times> real \<times> real"
  page :: nat
  is_bold :: bool
  y_position :: real
  x_position :: real
  width :: real
  height :: real

record heading =
  h_level :: string
  h_text :: string
  h_page :: nat

definition min_title_font_ratio :: real where "min_title_font_ratio = 1.8"
definition min_heading_font_ratio :: real where "min_heading_font_ratio = 1.0"
definition min_h1_font_ratio :: real where "min_h1_font_ratio = 1.4"
definition min_h2_font_ratio :: real where "min_h2_font_ratio = 1.2"

definition is_bold_font :: "string \<Rightarrow> nat \<Rightarrow> bool" where
  "is_bold_font fname fl =
     (if contains (lower fname) ''bold'' then True else (fl div 2 ^ 4) mod 2 = 1)"

text \<open>
  The inner loop of \<open>_extract_page_blocks\<close> over the spans of one line; the state is
  \<open>(line_text, fontsize, fontname, flags, bbox)\<close> of the source.
\<close>

type_synonym line_state = "string \<times> real \<times> string \<times> nat \<times> (real \<times> real \<times> real \<times> real) option"

definition merge_span :: "line_state \<Rightarrow> span \<Rightarrow> line_state" where
  "merge_span st sp =
     (case st of (line_text, fsize, fname, fl, bb) \<Rightarrow>
        if strip (span_text sp) \<noteq> [] then
          (line_text @ span_text sp,
           max fsize (span_size sp),
           span_font sp,
           span_flags sp,
           (case bb of
              None \<Rightarrow> Some (span_bbox sp)
            | Some (b0, b1, b2, b3) \<Rightarrow>
                (case span_bbox sp of (s0, s1, s2, s3) \<Rightarrow>
                   Some (min b0 s0, min b1 s1, max b2 s2, max b3 s3))))
        else st)"

definition line_block :: "nat \<Rightarrow> span list \<Rightarrow> block list" where
  "line_block page_num line =
     (case foldl merge_span ([], 0, [], 0, None) line of
        (line_text, fsize, fname, fl, bb) \<Rightarrow>
          (case bb of
             None \<Rightarrow> []
           | Some (b0, b1, b2, b3) \<Rightarrow>
               if strip line_text \<noteq> [] then
                 [\<lparr> block_text = strip line_text, fontsize = fsize, fontname = fname,
                    flags = fl, bbox = (b0, b1, b2, b3), page = page_num,
                    is_bold = is_bold_font fname fl,
                    y_position = b1, x_position = b0,
                    width = b2 - b0, height = b3 - b1 \<rparr>]
               else []))"

definition extract_page_blocks :: "page \<Rightarrow> nat \<Rightarrow> block list" where
  "extract_page_blocks pg page_num =
     concat (map (\<lambda>blk. case blk of
                          None \<Rightarrow> []
                        | Some lines \<Rightarrow> concat (map (line_block page_num) lines))
                 (page_blocks pg))"

text \<open>\<open>statistics.median\<close>, \<open>statistics.mean\<close> and \<open>statistics.stdev\<close> on a non-empty list.\<close>

definition median :: "real list \<Rightarrow> real" where
  "median data =
     (let sorted_data = sort data; n = length sorted_data
      in if n mod 2 = 1 then sorted_data ! (n div 2)
         else (sorted_data ! (n div 2 - 1) + sorted_data ! (n div 2)) / 2)"

definition mean :: "real list \<Rightarrow> real" where
  "mean data = sum_list data / real (length data)"

definition stdev :: "real list \<Rightarrow> real" where
  "stdev data =
     sqrt (sum_list (map (\<lambda>x. (x - mean data) ^ 2) data) / real (length data - 1))"

text \<open>\<open>max(xs, key=f)\<close> and \<open>min(xs, key=f)\<close>: the first extremal element.\<close>

fun max_by :: "('a \<Rightarrow> real) \<Rightarrow> 'a \<Rightarrow> 'a list \<Rightarrow> 'a" where
  "max_by f best [] = best"
| "max_by f best (x # xs) = max_by f (if f x > f best then x else best) xs"

fun min_by :: "('a \<Rightarrow> real) \<Rightarrow> 'a \<Rightarrow> 'a list \<Rightarrow> 'a" where
  "min_by f best [] = best"
| "min_by f best (x # xs) = min_by f (if f x < f best then x else best) xs"

definition extract_title :: "block list \<Rightarrow> real \<Rightarrow> real \<Rightarrow> string" where
  "extract_title blocks median_fontsize std_fontsize =
     (if blocks = [] then []
      else let first_page_blocks = filter (\<lambda>b. page b = 1) blocks in
        (case first_page_blocks of
           [] \<Rightarrow> []
         | fb # fbs \<Rightarrow>
             (let title_candidates =
                    filter (\<lambda>b. fontsize b / median_fontsize \<ge> min_title_font_ratio)
                      first_page_blocks;
                  title_candidates' =
                    (if title_candidates = [] then [max_by fontsize fb fbs]
                     else title_candidates)
              in block_text (min_by y_position (hd title_candidates') (tl title_candidates')))))"

definition is_centered :: "block \<Rightarrow> bool" where
  "is_centered b = (x_position b > 100)"

definition is_capitalized :: "string \<Rightarrow> bool" where
  "is_capitalized t =
     (if length t < 3 then False
      else real (length (filter isupper t)) / real (length t) > 0.7)"

text \<open>
  The four patterns of \<open>_is_numbered_heading\<close>, each matched at the start of the text
  as \<open>re.match\<close> does.
\<close>

definition match_digits_dot :: "string \<Rightarrow> bool" where
  "match_digits_dot t =
     (takeWhile isdigit t \<noteq> [] \<and>
      (case dropWhile isdigit t of [] \<Rightarrow> False | c # _ \<Rightarrow> c = CHR ''.''))"

definition match_digits_space_upper :: "string \<Rightarrow> bool" where
  "match_digits_space_upper t =
     (takeWhile isdigit t \<noteq> [] \<and>
      (let r = dropWhile isdigit t
       in takeWhile isspace r \<noteq> [] \<and>
          (case dropWhile isspace r of [] \<Rightarrow> False | c # _ \<Rightarrow> isupper c)))"

definition match_upper_dot :: "string \<Rightarrow> bool" where
  "match_upper_dot t =
     (case t of c # d # _ \<Rightarrow> isupper c \<and> d = CHR ''.'' | _ \<Rightarrow> False)"

definition match_digits_dot_digits :: "string \<Rightarrow> bool" where
  "match_digits_dot_digits t =
     (takeWhile isdigit t \<noteq> [] \<and>
      (case dropWhile isdigit t of
         c # d # _ \<Rightarrow> c = CHR ''.'' \<and> isdigit d
       | _ \<Rightarrow> False))"

definition is_numbered_heading :: "string \<Rightarrow> bool" where
  "is_numbered_heading t =
     (match_digits_dot t \<or> match_digits_space_upper t \<or>
      match_upper_dot t \<or> match_digits_dot_digits t)"

definition is_heading_candidate :: "block \<Rightarrow> real \<Rightarrow> real \<Rightarrow> bool" where
  "is_heading_candidate b median_fontsize std_fontsize =
     (let font_ratio = fontsize b / median_fontsize
      in font_ratio \<ge> min_heading_font_ratio \<or>
         is_bold b \<or>
         is_centered b \<or>
         is_capitalized (block_text b) \<or>
         is_numbered_heading (block_text b))"

definition determine_heading_level :: "block \<Rightarrow> real \<Rightarrow> string" where
  "determine_heading_level b median_fontsize =
     (let font_ratio = fontsize b / median_fontsize
      in if font_ratio \<ge> min_h1_font_ratio then ''H1''
         else if font_ratio \<ge> min_h2_font_ratio then ''H2''
         else ''H3'')"

text \<open>\<open>xs.index(x)\<close>: the first position holding a value equal to \<open>x\<close>.\<close>

fun index_of :: "'a list \<Rightarrow> 'a \<Rightarrow> nat option" where
  "index_of [] x = None"
| "index_of (y # ys) x = (if y = x then Some 0 else map_option Suc (index_of ys x))"

text \<open>
  The key function of the sort in \<open>_extract_headings\<close>: the page of the heading, and
  the \<open>y_position\<close> of the block found by looking the heading's text up in \<open>blocks\<close>
  (\<open>next\<close> over the generator, then \<open>blocks.index\<close>).
\<close>

definition heading_sort_key :: "block list \<Rightarrow> heading \<Rightarrow> error + (nat \<times> real)" where
  "heading_sort_key blocks x =
     (case find (\<lambda>b. block_text b = h_text x) blocks of
        None \<Rightarrow> Inl StopIteration
      | Some b \<Rightarrow>
          (case index_of blocks b of
             None \<Rightarrow> Inl (ValueError ''not in list'')
           | Some i \<Rightarrow> Inr (h_page x, y_position (blocks ! i))))"

text \<open>All keys are computed before the list is rearranged; the first failing key aborts.\<close>

fun collect_keys :: "('a \<Rightarrow> error + 'k) \<Rightarrow> 'a list \<Rightarrow> error + ('k \<times> 'a) list" where
  "collect_keys f [] = Inr []"
| "collect_keys f (x # xs) =
     (case f x of
        Inl e \<Rightarrow> Inl e
      | Inr k \<Rightarrow> (case collect_keys f xs of Inl e \<Rightarrow> Inl e | Inr ks \<Rightarrow> Inr ((k, x) # ks)))"

definition extract_headings :: "block list \<Rightarrow> real \<Rightarrow> real \<Rightarrow> error + heading list" where
  "extract_headings blocks median_fontsize std_fontsize =
     (let headings =
            map (\<lambda>b. \<lparr> h_level = determine_heading_level b median_fontsize,
                       h_text = block_text b, h_page = page b \<rparr>)
              (filter (\<lambda>b. is_heading_candidate b median_fontsize std_fontsize) blocks)
      in case collect_keys (heading_sort_key blocks) headings of
           Inl e \<Rightarrow> Inl e
         | Inr keyed \<Rightarrow> Inr (map snd (sort_key fst keyed)))"

record outline_result =
  title :: string
  outline :: "heading list"

definition extract_outline :: "pdf \<Rightarrow> error + outline_result" where
  "extract_outline pdf_path =
     (case pdf_doc pdf_path of
        None \<Rightarrow> Inl FileDataError
      | Some doc \<Rightarrow>
          if length doc = 0 then Inl (ValueError ''PDF has no pages'')
          else
            let all_blocks =
                  concat (map (\<lambda>page_num. extract_page_blocks (doc ! page_num) (page_num + 1))
                            [0..<length doc]);
                font_sizes = filter (\<lambda>s. s > 0) (map fontsize all_blocks)
            in if font_sizes = [] then
                 Inl (ValueError ''No text with font size information found'')
               else
                 let median_fontsize = median font_sizes;
                     std_fontsize = (if length font_sizes > 1 then stdev font_sizes else 1)
                 in case extract_headings all_blocks median_fontsize std_fontsize of
                      Inl e \<Rightarrow> Inl e
                    | Inr hs \<Rightarrow>
                        Inr \<lparr> title = extract_title all_blocks median_fontsize std_fontsize,
                              outline = hs \<rparr>)"

section \<open>ranker.py\<close>

text \<open>
  A section dictionary. The keys \<open>relevance_score\<close> and \<open>document\<close> are added after the
  dictionary is built, so they are optional here.
\<close>

record section_dict =
  section_title :: string
  level :: string
  section_page :: nat
  section_text :: string
  chunks :: "string list"
  importance_rank :: nat
  relevance_score :: "real option"
  document :: "string option"

record weights_dict =
  semantic_similarity :: real
  level_weight :: real
  recency_factor :: real
  content_boost :: real

definition weights :: weights_dict where
  "weights = \<lparr> semantic_similarity = 0.55, level_weight = 0.25,
               recency_factor = 0.15, content_boost = 0.05 \<rparr>"

definition level_weights :: "string \<rightharpoonup> real" where
  "level_weights = map_of [(''H1'', 1.0), (''H2'', 0.7), (''H3'', 0.4), (''title'', 1.2)]"

text \<open>\<open>d.get(k, default)\<close>.\<close>

definition dict_get :: "('k \<rightharpoonup> 'v) \<Rightarrow> 'k \<Rightarrow> 'v \<Rightarrow> 'v" where
  "dict_get d k dflt = (case d k of None \<Rightarrow> dflt | Some v \<Rightarrow> v)"

definition clean_text :: "string \<Rightarrow> string" where
  "clean_text t =
     (let t1 = join '' '' (split t);
          t2 = replace_char (CHR 0x09) CHR '' '' (replace_char (CHR 0x0A) CHR '' '' t1)
      in strip t2)"

text \<open>
  One iteration of the loop of \<open>_extract_full_sections\<close>, for the heading at index \<open>i\<close>.
  Page numbers are the 1-based ones that \<open>extract_outline\<close> assigns. \<open>chunk_text\<close> is a
  loop, so an iteration returns \<open>None\<close> when that loop does not return.
\<close>

definition pages_text :: "page list \<Rightarrow> nat \<Rightarrow> nat \<Rightarrow> string" where
  "pages_text doc start_page end_page =
     concat (map (\<lambda>page_num. page_text (doc ! page_num) @ [CHR 0x0A])
               [start_page - 1 ..< min end_page (length doc)])"

definition extract_section :: "page list \<Rightarrow> heading list \<Rightarrow> nat \<Rightarrow> section_dict option" where
  "extract_section doc outl i =
     (let hd_i = outl ! i;
          start_page = h_page hd_i;
          end_page = (if i + 1 < length outl then h_page (outl ! (i + 1)) else length doc);
          cleaned_text = clean_text (pages_text doc start_page end_page)
      in case chunk_text cleaned_text 200 50 of
           None \<Rightarrow> None
         | Some cs \<Rightarrow>
             Some \<lparr> section_title = h_text hd_i, level = h_level hd_i,
                    section_page = h_page hd_i, section_text = cleaned_text,
                    chunks = cs, importance_rank = 0,
                    relevance_score = None, document = None \<rparr>)"

definition extract_full_sections :: "pdf \<Rightarrow> outline_result \<Rightarrow> section_dict list option" where
  "extract_full_sections pdf_path outline_res =
     (case pdf_doc pdf_path of
        None \<Rightarrow> Some []
      | Some doc \<Rightarrow>
          those (map (extract_section doc (outline outline_res))
                   [0..<length (outline outline_res)]))"

definition calculate_content_boost :: "string \<Rightarrow> string \<Rightarrow> real" where
  "calculate_content_boost t query =
     (let text_lower = lower t;
          query_lower = lower query;
          boost0 = 0;
          boost1 =
            (if list_ex (contains query_lower) [''data'', ''methodology'', ''analysis'', ''research'']
                \<and> list_ex (contains text_lower) [''table'', ''figure'', ''chart'', ''graph'', ''dataset'']
             then boost0 + 0.3 else boost0);
          boost2 =
            (if list_ex (contains query_lower) [''revenue'', ''profit'', ''financial'', ''earnings'']
                \<and> list_ex (contains text_lower) [''$'', ''million'', ''billion'', ''percentage'', ''%'']
             then boost1 + 0.2 else boost1)
      in min boost2 1.0)"

definition calculate_section_score :: "section_dict \<Rightarrow> real \<Rightarrow> string \<Rightarrow> real" where
  "calculate_section_score s similarity query =
     (let semantic_score = similarity;
          level_score = dict_get level_weights (level s) 0.5;
          content_score = calculate_content_boost (section_text s) query;
          recency_score = 0.5
      in semantic_similarity weights * semantic_score +
         level_weight weights * level_score +
         recency_factor weights * recency_score +
         content_boost weights * content_score)"

text \<open>
  The scoring loop of \<open>_rank_sections_by_relevance\<close>: \<open>similarities[i]\<close> raises when the
  backend's list is shorter than the list of sections.
\<close>

fun score_sections :: "real list \<Rightarrow> string \<Rightarrow> nat \<Rightarrow> section_dict list \<Rightarrow> error + section_dict list" where
  "score_sections similarities query i [] = Inr []"
| "score_sections similarities query i (s # ss) =
     (if i < length similarities then
        (case score_sections similarities query (Suc i) ss of
           Inl e \<Rightarrow> Inl e
         | Inr r \<Rightarrow>
             Inr (s\<lparr> relevance_score := Some (calculate_section_score s (similarities ! i) query),
                      importance_rank := 0 \<rparr> # r))
      else Inl IndexError)"

definition score_key :: "section_dict \<Rightarrow> error + real" where
  "score_key s = (case relevance_score s of None \<Rightarrow> Inl (KeyError ''relevance_score'') | Some r \<Rightarrow> Inr r)"

text \<open>
  \<open>sorted(xs, key=f, reverse=True)\<close>: the keys are computed, the list is reversed, sorted
  stably in ascending order and reversed again.
\<close>

definition sorted_reverse :: "('k::linorder \<times> 'a) list \<Rightarrow> 'a list" where
  "sorted_reverse keyed = map snd (rev (sort_key fst (rev keyed)))"

fun set_ranks :: "nat \<Rightarrow> section_dict list \<Rightarrow> section_dict list" where
  "set_ranks i [] = []"
| "set_ranks i (s # ss) = s\<lparr> importance_rank := i + 1 \<rparr> # set_ranks (Suc i) ss"

text \<open>
  The similarity backend (\<open>_calculate_tfidf_similarity\<close> or
  \<open>_calculate_semantic_similarity\<close>, whichever the constructor selected) is a parameter:
  it maps the section texts and the query to a list of similarities.
\<close>

type_synonym backend = "string list \<Rightarrow> string \<Rightarrow> real list"

definition rank_sections_by_relevance ::
  "backend \<Rightarrow> section_dict list \<Rightarrow> string \<Rightarrow> error + section_dict list" where
  "rank_sections_by_relevance calculate_similarity sections persona_query =
     (if sections = [] then Inr []
      else
        let section_texts = map section_text sections;
            similarities = calculate_similarity section_texts persona_query
        in case score_sections similarities persona_query 0 sections of
             Inl e \<Rightarrow> Inl e
           | Inr scored \<Rightarrow>
               (case collect_keys score_key scored of
                  Inl e \<Rightarrow> Inl e
                | Inr keyed \<Rightarrow> Inr (set_ranks 0 (sorted_reverse keyed))))"

text \<open>
  The body of the loop over \<open>pdf_paths\<close> in \<open>rank_sections\<close>: the sections one document
  adds to \<open>all_sections\<close>. An exception is logged and the document is skipped.
\<close>

definition document_sections :: "pdf \<Rightarrow> section_dict list option" where
  "document_sections pdf_path =
     (case extract_outline pdf_path of
        Inl e \<Rightarrow> Some []
      | Inr outline_res \<Rightarrow>
          map_option (map (\<lambda>s. s\<lparr> document := Some (pdf_name pdf_path) \<rparr>))
            (extract_full_sections pdf_path outline_res))"

definition gather_sections :: "pdf list \<Rightarrow> section_dict list option" where
  "gather_sections pdf_paths = map_option concat (those (map document_sections pdf_paths))"

record ranking_result =
  extracted_sections :: "section_dict list"
  total_sections :: nat

definition rank_sections ::
  "backend \<Rightarrow> pdf list \<Rightarrow> string \<Rightarrow> string \<Rightarrow> (error + ranking_result) option" where
  "rank_sections calculate_similarity pdf_paths persona job_description =
     (case gather_sections pdf_paths of
        None \<Rightarrow> None
      | Some all_sections \<Rightarrow>
          Some (if all_sections = [] then Inl (ValueError ''No sections extracted from any PDF'')
                else
                  let persona_query = persona @ '': '' @ job_description
                  in case rank_sections_by_relevance calculate_similarity all_sections persona_query of
                       Inl e \<Rightarrow> Inl e
                     | Inr ranked_sections \<Rightarrow>
                         Inr \<lparr> extracted_sections = take 10 ranked_sections,
                               total_sections = length all_sections \<rparr>))"

section \<open>main.py\<close>

text \<open>
  The two dictionaries \<open>process_round_1b\<close> can return; the \<open>processing_time\<close> entries
  are wall-clock readings and are left out.
\<close>

record round_1b_metadata =
  md_documents :: "string list"
  md_persona :: string
  md_job :: string
  md_round :: string

record round_1b_error =
  err_error :: error
  err_persona :: string
  err_job :: string
  err_round :: string

definition process_round_1b ::
  "backend \<Rightarrow> pdf list \<Rightarrow> string \<Rightarrow> string \<Rightarrow>
     (round_1b_error + ranking_result \<times> round_1b_metadata) option" where
  "process_round_1b calculate_similarity pdf_paths persona job_description =
     (let valid_pdfs = filter validate_pdf pdf_paths;
          failed = (\<lambda>e. Inl \<lparr> err_error = e, err_persona = persona,
                              err_job = job_description, err_round = ''1B'' \<rparr>)
      in if valid_pdfs = [] then Some (failed (ValueError ''No valid PDFs found''))
         else
           (case rank_sections calculate_similarity valid_pdfs persona job_description of
              None \<Rightarrow> None
            | Some (Inl e) \<Rightarrow> Some (failed e)
            | Some (Inr result) \<Rightarrow>
                Some (Inr (result,
                           \<lparr> md_documents = map pdf_name valid_pdfs, md_persona = persona,
                             md_job = job_description, md_round = ''1B'' \<rparr>))))"

section \<open>Reference definitions for the properties\<close>

text \<open>
  The windows of the chunker as the design describes them: window \<open>k\<close> holds the \<open>m\<close>
  words from position \<open>k * s\<close> on, joined by blanks, where \<open>m = max_tokens\<close> and
  \<open>s = max_tokens - overlap\<close> is the stride; \<open>last_window\<close> is the index of the first
  window that reaches the end of \<open>L\<close> words.
\<close>

definition window :: "string list \<Rightarrow> nat \<Rightarrow> nat \<Rightarrow> nat \<Rightarrow> string" where
  "window ws m s k = join '' '' (take m (drop (k * s) ws))"

definition last_window :: "nat \<Rightarrow> nat \<Rightarrow> nat \<Rightarrow> nat" where
  "last_window L m s = (L - m + s - 1) div s"

definition chunk_windows :: "string list \<Rightarrow> int \<Rightarrow> int \<Rightarrow> string list" where
  "chunk_windows ws mt ov =
     (let m = nat mt; s = nat (mt - ov)
      in map (window ws m s) [0..<Suc (last_window (length ws) m s)])"

text \<open>
  The ordering the design asks of \<open>_extract_headings\<close>: the heading candidates sorted
  by the page and the vertical position of their own block.
\<close>

definition headings_by_position :: "block list \<Rightarrow> real \<Rightarrow> real \<Rightarrow> heading list" where
  "headings_by_position blocks median_fontsize std_fontsize =
     map (\<lambda>b. \<lparr> h_level = determine_heading_level b median_fontsize,
                h_text = block_text b, h_page = page b \<rparr>)
       (sort_key (\<lambda>b. (page b, y_position b))
          (filter (\<lambda>b. is_heading_candidate b median_fontsize std_fontsize) blocks))"

text \<open>
  A line of regular text at the left margin, as \<open>_extract_page_blocks\<close> builds it from a
  single span: text \<open>t\<close> of size \<open>sz\<close> on page \<open>pg\<close> with its top at \<open>y\<close>.
\<close>

definition plain_block :: "string \<Rightarrow> real \<Rightarrow> nat \<Rightarrow> real \<Rightarrow> block" where
  "plain_block t sz pg y =
     \<lparr> block_text = t, fontsize = sz, fontname = ''Helvetica'', flags = 0,
       bbox = (72, y, 300, y + sz), page = pg, is_bold = False,
       y_position = y, x_position = 72, width = 228, height = sz \<rparr>"

text \<open>A page on which the heading \<open>Intro\<close> occurs twice, with \<open>Scope\<close> between.\<close>

definition repeated_heading_blocks :: "block list" where
  "repeated_heading_blocks =
     [plain_block ''Intro'' 12 1 100, plain_block ''Scope'' 12 1 300,
      plain_block ''Intro'' 12 1 500]"

text \<open>A file of 51 empty pages that exists and opens.\<close>

definition blank_page :: page where
  "blank_page = \<lparr> page_blocks = [], page_text = [] \<rparr>"

definition long_pdf :: pdf where
  "long_pdf = \<lparr> pdf_name = ''long.pdf'', pdf_exists = True, pdf_st_size = 1000,
                pdf_doc = Some (replicate 51 blank_page) \<rparr>"

text \<open>A similarity backend that finds nothing: one zero for each text.\<close>

definition zero_similarity :: backend where
  "zero_similarity texts query = map (\<lambda>t. 0) texts"

text \<open>
  The section text as the design words it: the page texts of the pages in the half-open
  interval from the heading's page to the next heading's page (or to one past the last
  page), joined by line feeds and then cleaned.
\<close>

definition half_open_section_text :: "page list \<Rightarrow> heading list \<Rightarrow> nat \<Rightarrow> string" where
  "half_open_section_text doc outl i =
     (let start_page = h_page (outl ! i);
          end_page = (if i + 1 < length outl then h_page (outl ! (i + 1)) else length doc + 1)
      in clean_text (join [CHR 0x0A]
           (map (\<lambda>p. page_text (doc ! (p - 1))) [start_page..<end_page])))"

text \<open>A document of two pages, with one heading on each.\<close>

definition two_pages :: "page list" where
  "two_pages = [\<lparr> page_blocks = [], page_text = ''alpha'' \<rparr>,
                \<lparr> page_blocks = [], page_text = ''beta'' \<rparr>]"

definition two_headings :: "heading list" where
  "two_headings = [\<lparr> h_level = ''H3'', h_text = ''alpha'', h_page = 1 \<rparr>,
                   \<lparr> h_level = ''H3'', h_text = ''beta'', h_page = 2 \<rparr>]"

definition two_page_pdf :: pdf where
  "two_page_pdf = \<lparr> pdf_name = ''two.pdf'', pdf_exists = True, pdf_st_size = 1000,
                    pdf_doc = Some two_pages \<rparr>"

section \<open>The chunker\<close>

lemma chunk_loop_step:
  "start < int (length ws) \<Longrightarrow> start + mt < int (length ws) \<Longrightarrow>
   chunk_loop ws mt ov start cs =
     chunk_loop ws mt ov (start + (mt - ov)) (cs @ [join '' '' (py_slice ws start (start + mt))])"
  by (subst chunk_loop.simps) (simp add: Let_def min_def algebra_simps)

lemma chunk_loop_stop:
  "start < int (length ws) \<Longrightarrow> int (length ws) \<le> start + mt \<Longrightarrow>
   chunk_loop ws mt ov start cs =
     Some (cs @ [join '' '' (py_slice ws start (int (length ws)))])"
  by (subst chunk_loop.simps) (simp add: Let_def min_def)

lemma chunk_loop_exit:
  "int (length ws) \<le> start \<Longrightarrow> chunk_loop ws mt ov start cs = Some cs"
  by (subst chunk_loop.simps) simp

lemma chunk_loop_total:
  assumes "ov < mt"
  shows "\<exists>y. chunk_loop ws mt ov start cs = Some y"
proof (induction "nat (int (length ws) - start)" arbitrary: start cs rule: less_induct)
  case less
  show ?case
  proof (cases "start < int (length ws)")
    case False
    then show ?thesis by (simp add: chunk_loop_exit)
  next
    case True
    show ?thesis
    proof (cases "start + mt < int (length ws)")
      case False
      with True show ?thesis by (simp add: chunk_loop_stop)
    next
      case lt: True
      have "nat (int (length ws) - (start + (mt - ov))) < nat (int (length ws) - start)"
        using assms True by linarith
      from less[OF this] show ?thesis
        using True lt by (simp add: chunk_loop_step)
    qed
  qed
qed

lemma chunk_loop_diverges_aux:
  assumes "chunk_loop ws mt ov start cs = Some y"
  shows "\<not> (start \<le> 0 \<and> 0 < mt \<and> mt \<le> ov \<and> mt < int (length ws))"
  apply (rule chunk_loop.raw_induct
      [where P = "\<lambda>ws mt ov start cs y. \<not> (start \<le> 0 \<and> 0 < mt \<and> mt \<le> ov \<and> mt < int (length ws))",
        OF _ assms])
  subgoal premises prems for f ws mt ov start cs y
  proof
    assume a: "start \<le> 0 \<and> 0 < mt \<and> mt \<le> ov \<and> mt < int (length ws)"
    then have "f ws mt ov (start + mt - ov) (cs @ [join '' '' (py_slice ws start (start + mt))]) = Some y"
      using prems(2) by (simp add: Let_def min_def split: if_splits)
    from prems(1)[OF this] a show False by auto
  qed
  done

lemma chunk_text_diverges:
  assumes "0 < mt" "mt \<le> ov" "mt < int (length (split t))"
  shows "chunk_text t mt ov = None"
proof -
  have ne: "t \<noteq> []" using assms by auto
  have "chunk_loop (split t) mt ov 0 [] = None"
  proof (cases "chunk_loop (split t) mt ov 0 []")
    case (Some y)
    from chunk_loop_diverges_aux[OF this] assms show ?thesis by simp
  qed simp
  with ne assms show ?thesis by (simp add: chunk_text_def Let_def)
qed

lemma last_window_reaches:
  assumes "0 < s" "m < L"
  shows "L \<le> last_window L m s * s + m"
proof -
  have "(L - m + s - 1) mod s < s" using assms by simp
  moreover have "(L - m + s - 1) div s * s + (L - m + s - 1) mod s = L - m + s - 1"
    by simp
  ultimately have "L - m \<le> (L - m + s - 1) div s * s" using assms by linarith
  then show ?thesis using assms by (simp add: last_window_def)
qed

lemma last_window_before:
  assumes "0 < s" "m < L" "k < last_window L m s"
  shows "k * s + m < L"
proof -
  have "Suc k \<le> (L - m + s - 1) div s" using assms by (simp add: last_window_def)
  then have "Suc k * s \<le> (L - m + s - 1) div s * s" by (rule mult_le_mono1)
  also have "\<dots> \<le> L - m + s - 1" by simp
  finally show ?thesis using assms by simp
qed

lemma slice_bound_nat: "slice_bound n (int p) = min p n"
  by (simp add: slice_bound_def)

lemma py_slice_to_end:
  assumes "p < length ws" "length ws \<le> p + m"
  shows "py_slice ws (int p) (int (length ws)) = take m (drop p ws)"
proof -
  have "py_slice ws (int p) (int (length ws)) = take (length ws - p) (drop p ws)"
    using assms by (simp add: py_slice_def slice_bound_nat Let_def)
  also have "\<dots> = drop p ws" by simp
  also have "\<dots> = take m (drop p ws)" using assms by simp
  finally show ?thesis .
qed

lemma py_slice_inner:
  assumes "p + m < length ws"
  shows "py_slice ws (int p) (int (p + m)) = take m (drop p ws)"
  unfolding py_slice_def Let_def slice_bound_nat using assms by simp

lemma chunk_loop_stop_nat:
  assumes "p < length ws" "length ws \<le> p + nat mt" "0 \<le> mt"
  shows "chunk_loop ws mt ov (int p) cs = Some (cs @ [join '' '' (take (nat mt) (drop p ws))])"
proof -
  have a: "int p < int (length ws)" using assms(1) by simp
  have b: "int (length ws) \<le> int p + mt" using assms(2,3) by linarith
  show ?thesis
    using chunk_loop_stop[OF a b, of ov cs] py_slice_to_end[OF assms(1,2)] by simp
qed

lemma chunk_loop_step_nat:
  assumes "p + nat mt < length ws" "0 \<le> ov" "ov < mt"
  shows "chunk_loop ws mt ov (int p) cs =
           chunk_loop ws mt ov (int (p + nat (mt - ov)))
             (cs @ [join '' '' (take (nat mt) (drop p ws))])"
proof -
  have a: "int p < int (length ws)" using assms(1) by simp
  have b: "int p + mt < int (length ws)" using assms by linarith
  have c: "int p + mt = int (p + nat mt)" using assms by simp
  have d: "int p + (mt - ov) = int (p + nat (mt - ov))" using assms by simp
  have "chunk_loop ws mt ov (int p) cs =
          chunk_loop ws mt ov (int p + (mt - ov))
            (cs @ [join '' '' (py_slice ws (int p) (int p + mt))])"
    by (rule chunk_loop_step[OF a b])
  then show ?thesis
    unfolding c d py_slice_inner[OF assms(1)] .
qed

lemma chunk_loop_windows:
  assumes "0 \<le> ov" "ov < mt" "nat mt < length ws" "k \<le> last_window (length ws) (nat mt) (nat (mt - ov))"
  shows "chunk_loop ws mt ov (int (k * nat (mt - ov))) cs =
           Some (cs @ map (window ws (nat mt) (nat (mt - ov)))
                          [k..<Suc (last_window (length ws) (nat mt) (nat (mt - ov)))])"
  using assms(4)
proof (induction "last_window (length ws) (nat mt) (nat (mt - ov)) - k" arbitrary: k cs)
  case 0
  define s where "s = nat (mt - ov)"
  define m where "m = nat mt"
  define n where "n = last_window (length ws) m s"
  have kn: "k = n" using 0 assms(4) by (simp add: n_def s_def m_def)
  have spos: "0 < s" and sm: "s \<le> m" and mL: "m < length ws"
    using assms by (simp_all add: s_def m_def)
  have reach: "length ws \<le> n * s + m"
    using last_window_reaches[OF spos mL] by (simp add: n_def s_def m_def)
  have lt: "n * s < length ws"
  proof (cases n)
    case 0
    then show ?thesis using mL by auto
  next
    case (Suc j)
    then have "j < last_window (length ws) m s" by (simp add: n_def s_def m_def)
    from last_window_before[OF spos mL this] sm Suc show ?thesis by simp
  qed
  have stop: "chunk_loop ws mt ov (int (n * s)) cs =
          Some (cs @ [join '' '' (take m (drop (n * s) ws))])"
    unfolding m_def using lt reach assms by (intro chunk_loop_stop_nat) (simp_all add: m_def)
  have e: "map (window ws m s) [n..<Suc n] = [join '' '' (take m (drop (n * s) ws))]"
    by (simp add: window_def)
  show ?case
    unfolding s_def[symmetric] m_def[symmetric] n_def[symmetric] kn e by (rule stop)
next
  case (Suc d)
  define s where "s = nat (mt - ov)"
  define m where "m = nat mt"
  define n where "n = last_window (length ws) m s"
  have kn: "k < n" using Suc by (simp add: n_def s_def m_def)
  have spos: "0 < s" and sm: "s \<le> m" and mL: "m < length ws"
    using assms by (simp_all add: s_def m_def)
  have before: "k * s + m < length ws"
    using last_window_before[OF spos mL] kn by (simp add: n_def s_def m_def)
  have step: "chunk_loop ws mt ov (int (k * s)) cs =
          chunk_loop ws mt ov (int (k * s + s))
            (cs @ [join '' '' (take m (drop (k * s) ws))])"
    unfolding m_def s_def using before assms
    by (intro chunk_loop_step_nat) (simp_all add: m_def s_def)
  have "d = n - Suc k" using Suc by (simp add: n_def s_def m_def)
  moreover have "Suc k \<le> n" using kn by simp
  ultimately have ih: "chunk_loop ws mt ov (int (Suc k * s)) cs' =
      Some (cs' @ map (window ws m s) [Suc k..<Suc n])" for cs'
    using Suc(1)[of "Suc k" cs'] by (simp add: n_def s_def m_def)
  have nxt: "k * s + s = Suc k * s" by simp
  have upt: "[k..<Suc n] = k # [Suc k..<Suc n]" using kn by (simp add: upt_conv_Cons)
  have w: "join '' '' (take m (drop (k * s) ws)) = window ws m s k" by (simp add: window_def)
  show ?case
    unfolding s_def[symmetric] m_def[symmetric] n_def[symmetric]
    by (simp only: step nxt w ih upt list.map append_assoc append_Cons append_Nil)
qed

lemma chunk_text_300:
  assumes "length (split t) = 300"
  shows "chunk_text t 200 50 =
           Some [join '' '' (take 200 (split t)), join '' '' (drop 150 (split t))]"
proof -
  have ne: "t \<noteq> []" using assms by auto
  have lw: "last_window 300 200 150 = 1" by (simp add: last_window_def)
  have "chunk_loop (split t) 200 50 (int (0 * nat (200 - 50))) [] =
          Some ([] @ map (window (split t) (nat 200) (nat (200 - 50)))
                  [0..<Suc (last_window (length (split t)) (nat 200) (nat (200 - 50)))])"
    by (rule chunk_loop_windows) (simp_all add: assms)
  then have "chunk_loop (split t) 200 50 0 [] =
          Some [window (split t) 200 150 0, window (split t) 200 150 1]"
    by (simp add: assms lw upt_rec)
  moreover have "window (split t) 200 150 1 = join '' '' (drop 150 (split t))"
    by (simp add: window_def assms)
  moreover have "window (split t) 200 150 0 = join '' '' (take 200 (split t))"
    by (simp add: window_def)
  ultimately show ?thesis using ne assms by (simp add: chunk_text_def Let_def)
qed

text \<open>
  C5: with \<open>0 \<le> overlap < max_tokens\<close>, \<open>chunk_text\<close> returns no chunk for the empty
  text, the text itself when it has at most \<open>max_tokens\<close> words, and otherwise the windows
  of \<open>max_tokens\<close> words at stride \<open>max_tokens - overlap\<close>, up to and including the first
  window that reaches the end of the words: every earlier window ends before the last
  word. A text of 300 words with 200 and 50 gives the two chunks \<open>words[0:200]\<close> and
  \<open>words[150:300]\<close>.
\<close>

theorem chunk_text_windows:
  assumes "0 \<le> overlap" "overlap < max_tokens"
  shows "chunk_text t max_tokens overlap =
           Some (if t = [] then []
                 else if length (split t) \<le> nat max_tokens then [t]
                 else chunk_windows (split t) max_tokens overlap)
         \<and> (nat max_tokens < length (split t) \<longrightarrow>
              (\<forall>k < last_window (length (split t)) (nat max_tokens) (nat (max_tokens - overlap)).
                  k * nat (max_tokens - overlap) + nat max_tokens < length (split t))
              \<and> length (split t) \<le>
                  last_window (length (split t)) (nat max_tokens) (nat (max_tokens - overlap))
                    * nat (max_tokens - overlap) + nat max_tokens)
         \<and> (length (split t) = 300 \<longrightarrow>
              chunk_text t 200 50 =
                Some [join '' '' (take 200 (split t)), join '' '' (drop 150 (split t))])"
proof (intro conjI impI allI)
  show "chunk_text t max_tokens overlap =
           Some (if t = [] then []
                 else if length (split t) \<le> nat max_tokens then [t]
                 else chunk_windows (split t) max_tokens overlap)"
  proof (cases "t = [] \<or> length (split t) \<le> nat max_tokens")
    case True
    then show ?thesis using assms by (auto simp: chunk_text_def Let_def)
  next
    case False
    then have gt: "nat max_tokens < length (split t)" by simp
    have "chunk_loop (split t) max_tokens overlap (int (0 * nat (max_tokens - overlap))) [] =
            Some ([] @ map (window (split t) (nat max_tokens) (nat (max_tokens - overlap)))
              [0..<Suc (last_window (length (split t)) (nat max_tokens) (nat (max_tokens - overlap)))])"
      using assms gt by (intro chunk_loop_windows) simp_all
    then have "chunk_loop (split t) max_tokens overlap 0 [] =
                 Some (chunk_windows (split t) max_tokens overlap)"
      by (simp add: chunk_windows_def Let_def)
    moreover have "\<not> int (length (split t)) \<le> max_tokens" using gt by linarith
    ultimately show ?thesis using False by (simp add: chunk_text_def Let_def)
  qed
next
  fix k
  assume "nat max_tokens < length (split t)"
    and "k < last_window (length (split t)) (nat max_tokens) (nat (max_tokens - overlap))"
  then show "k * nat (max_tokens - overlap) + nat max_tokens < length (split t)"
    using assms by (intro last_window_before) simp_all
next
  assume "nat max_tokens < length (split t)"
  then show "length (split t) \<le>
      last_window (length (split t)) (nat max_tokens) (nat (max_tokens - overlap))
        * nat (max_tokens - overlap) + nat max_tokens"
    using assms by (intro last_window_reaches) simp_all
next
  assume "length (split t) = 300"
  then show "chunk_text t 200 50 =
      Some [join '' '' (take 200 (split t)), join '' '' (drop 150 (split t))]"
    by (rule chunk_text_300)
qed

lemma split_abcde: "split ''a b c d e'' = [''a'', ''b'', ''c'', ''d'', ''e'']"
  by (simp add: isspace_def)

theorem chunk_text_windows_witness:
  "(0::int) \<le> 1 \<and> (1::int) < 3 \<and>
   chunk_text ''a b c d e'' 3 1 = Some [''a b c'', ''c d e'']"
  using chunk_text_windows [of 1 3 "''a b c d e''", unfolded split_abcde]
  by (simp add: chunk_windows_def last_window_def window_def upt_rec)

text \<open>
  C9: with \<open>0 < max_tokens\<close> and \<open>0 \<le> overlap < max_tokens\<close> the loop of \<open>chunk_text\<close>
  returns; an iteration that does not stop moves the start of the window forward by
  \<open>max_tokens - overlap\<close>. Without \<open>overlap < max_tokens\<close> the loop does not return on a
  text of more than \<open>max_tokens\<close> words.
\<close>

theorem chunk_text_terminates:
  "(0 < max_tokens \<and> 0 \<le> overlap \<and> overlap < max_tokens \<longrightarrow>
      (\<exists>chunks. chunk_text t max_tokens overlap = Some chunks))
   \<and> (start < int (length ws) \<and> start + max_tokens < int (length ws) \<longrightarrow>
        chunk_loop ws max_tokens overlap start cs =
          chunk_loop ws max_tokens overlap (start + (max_tokens - overlap))
            (cs @ [join '' '' (py_slice ws start (start + max_tokens))]))
   \<and> (0 < max_tokens \<and> max_tokens \<le> overlap \<and> max_tokens < int (length (split t)) \<longrightarrow>
        chunk_text t max_tokens overlap = None)"
proof (intro conjI impI)
  assume "0 < max_tokens \<and> 0 \<le> overlap \<and> overlap < max_tokens"
  then have "overlap < max_tokens" by simp
  from chunk_loop_total[OF this]
  obtain y where "chunk_loop (split t) max_tokens overlap 0 [] = Some y" by blast
  then show "\<exists>chunks. chunk_text t max_tokens overlap = Some chunks"
    by (simp add: chunk_text_def Let_def)
next
  assume "start < int (length ws) \<and> start + max_tokens < int (length ws)"
  then show "chunk_loop ws max_tokens overlap start cs =
          chunk_loop ws max_tokens overlap (start + (max_tokens - overlap))
            (cs @ [join '' '' (py_slice ws start (start + max_tokens))])"
    by (simp add: chunk_loop_step)
next
  assume "0 < max_tokens \<and> max_tokens \<le> overlap \<and> max_tokens < int (length (split t))"
  then show "chunk_text t max_tokens overlap = None"
    by (simp add: chunk_text_diverges)
qed

lemma split_abc: "split ''a b c'' = [''a'', ''b'', ''c'']"
  by (simp add: isspace_def)

theorem chunk_text_terminates_witness:
  "(\<exists>chunks. chunk_text ''a b c d e'' 3 1 = Some chunks)
   \<and> chunk_loop [''a'', ''b'', ''c'', ''d'', ''e''] 3 1 0 [] =
       chunk_loop [''a'', ''b'', ''c'', ''d'', ''e''] 3 1 2 [''a b c'']
   \<and> chunk_text ''a b c'' 2 2 = None"
  using chunk_text_terminates [of 3 1 "''a b c d e''" 0 "[''a'', ''b'', ''c'', ''d'', ''e'']" "[]"]
        chunk_text_terminates [of 2 2 "''a b c''" 0 "[]" "[]", unfolded split_abc]
  by (simp add: py_slice_def slice_bound_def)

section \<open>Heading classification\<close>

text \<open>
  Ten characters of which seven are upper case: the quotient is exactly 0.7, and the
  comparison in \<open>_is_capitalized\<close> is strict.
\<close>

theorem is_capitalized_counterexample:
  "length ''ABCDEFGhij'' = 10 \<and> length (filter isupper ''ABCDEFGhij'') = 7
   \<and> \<not> is_capitalized ''ABCDEFGhij''"
  by (simp add: is_capitalized_def isupper_def)

text \<open>
  C7: \<open>_is_capitalized\<close> holds exactly when the text has at least three characters and
  strictly more than 70% of them are upper-case letters (the quotient is compared with
  \<open>> 0.7\<close>; it is stated here over the naturals as \<open>7 * length < 10 * uppercase\<close>).
\<close>

theorem is_capitalized_iff:
  "is_capitalized t \<longleftrightarrow> 3 \<le> length t \<and> 7 * length t < 10 * length (filter isupper t)"
proof (cases "length t < 3")
  case True
  then show ?thesis by (simp add: is_capitalized_def)
next
  case False
  then have "0 < length t" by linarith
  then have pos: "0 < real (length t)" by simp
  have "(real (length (filter isupper t)) / real (length t) > 0.7)
        \<longleftrightarrow> 7 * real (length t) < 10 * real (length (filter isupper t))"
    using pos by (simp add: field_simps)
  also have "\<dots> \<longleftrightarrow> real (7 * length t) < real (10 * length (filter isupper t))"
    by simp
  also have "\<dots> \<longleftrightarrow> 7 * length t < 10 * length (filter isupper t)"
    by (rule of_nat_less_iff)
  finally show ?thesis using False by (simp add: is_capitalized_def)
qed

lemma median_uniform:
  assumes "xs \<noteq> []" "\<forall>x \<in> set xs. x = s"
  shows "median xs = s"
proof -
  have n: "0 < length (sort xs)" using assms(1) by simp
  have el: "sort xs ! i = s" if "i < length (sort xs)" for i
  proof -
    have "sort xs ! i \<in> set (sort xs)" using that by (rule nth_mem)
    then show ?thesis using assms(2) by simp
  qed
  show ?thesis
  proof (cases "length (sort xs) mod 2 = 1")
    case True
    have "length (sort xs) div 2 < length (sort xs)" using n by simp
    then show ?thesis using True by (simp add: median_def Let_def el del: length_sort)
  next
    case False
    then have "2 \<le> length (sort xs)" using n by presburger
    then have a: "length (sort xs) div 2 - 1 < length (sort xs)"
      and b: "length (sort xs) div 2 < length (sort xs)" by simp_all
    show ?thesis using False el[OF a] el[OF b]
      by (simp add: median_def Let_def del: length_sort)
  qed
qed

text \<open>
  C8: when every block of a document has the same positive font size, the median of the
  font sizes is that size, so each block's font ratio is 1 and each block passes
  \<open>_is_heading_candidate\<close> through the first criterion, \<open>ratio \<ge> 1.0\<close>, at equality.
\<close>

theorem uniform_font_all_candidates:
  assumes "blocks \<noteq> []" "\<forall>b \<in> set blocks. fontsize b = s" "0 < s"
  shows "\<forall>b \<in> set blocks.
           fontsize b / median (filter (\<lambda>x. x > 0) (map fontsize blocks)) = 1
           \<and> is_heading_candidate b (median (filter (\<lambda>x. x > 0) (map fontsize blocks))) std_fontsize"
proof -
  have f: "filter (\<lambda>x. x > 0) (map fontsize blocks) = map fontsize blocks"
    using assms(2,3) by (auto simp: filter_id_conv)
  have "median (map fontsize blocks) = s"
    using assms(1,2) by (intro median_uniform) auto
  then show ?thesis
    using assms(2,3) by (simp add: f is_heading_candidate_def min_heading_font_ratio_def Let_def)
qed

theorem uniform_font_all_candidates_witness:
  "is_heading_candidate (plain_block ''Scope'' 12 1 300)
     (median (filter (\<lambda>x. x > 0) (map fontsize repeated_heading_blocks))) 1
   \<and> fontsize (plain_block ''Scope'' 12 1 300)
       / median (filter (\<lambda>x. x > 0) (map fontsize repeated_heading_blocks)) = 1"
proof -
  have m: "median (filter (\<lambda>x. x > 0) (map fontsize repeated_heading_blocks)) = 12"
    by (simp add: repeated_heading_blocks_def plain_block_def median_def Let_def)
  have "\<forall>b \<in> set repeated_heading_blocks.
          fontsize b / 12 = 1 \<and> is_heading_candidate b 12 1"
    by (rule uniform_font_all_candidates [of repeated_heading_blocks 12 1, unfolded m])
      (simp_all add: repeated_heading_blocks_def plain_block_def)
  then show ?thesis unfolding m by (simp add: repeated_heading_blocks_def)
qed

lemma median_12_3: "median [12, 12, 12] = 12"
  by (simp add: median_def Let_def)

lemma candidates_repeated:
  "filter (\<lambda>b. is_heading_candidate b 12 1) repeated_heading_blocks = repeated_heading_blocks"
  by (simp add: repeated_heading_blocks_def plain_block_def is_heading_candidate_def
      min_heading_font_ratio_def Let_def)

lemma level_plain: "determine_heading_level (plain_block t 12 pg y) 12 = ''H3''"
  by (simp add: determine_heading_level_def plain_block_def min_h1_font_ratio_def
      min_h2_font_ratio_def Let_def)

lemma key_intro:
  "heading_sort_key repeated_heading_blocks \<lparr> h_level = l, h_text = ''Intro'', h_page = p \<rparr>
     = Inr (p, 100)"
  by (simp add: heading_sort_key_def repeated_heading_blocks_def plain_block_def)

lemma key_scope:
  "heading_sort_key repeated_heading_blocks \<lparr> h_level = l, h_text = ''Scope'', h_page = p \<rparr>
     = Inr (p, 300)"
  by (simp add: heading_sort_key_def repeated_heading_blocks_def plain_block_def)

text \<open>
  C1: a page with the blocks \<open>Intro\<close> (y = 100), \<open>Scope\<close> (y = 300) and \<open>Intro\<close>
  (y = 500), all of size 12. The sort key of \<open>_extract_headings\<close> looks the position up
  by the heading's text, so both \<open>Intro\<close> headings get the key (1, 100) and the result is
  \<open>Intro, Intro, Scope\<close>; sorted by the position of their own blocks the headings are
  \<open>Intro, Scope, Intro\<close>.
\<close>

theorem extract_headings_repeated_text:
  "extract_headings repeated_heading_blocks (median (map fontsize repeated_heading_blocks)) 1 =
     Inr [\<lparr> h_level = ''H3'', h_text = ''Intro'', h_page = 1 \<rparr>,
          \<lparr> h_level = ''H3'', h_text = ''Intro'', h_page = 1 \<rparr>,
          \<lparr> h_level = ''H3'', h_text = ''Scope'', h_page = 1 \<rparr>]
   \<and> headings_by_position repeated_heading_blocks (median (map fontsize repeated_heading_blocks)) 1 =
     [\<lparr> h_level = ''H3'', h_text = ''Intro'', h_page = 1 \<rparr>,
      \<lparr> h_level = ''H3'', h_text = ''Scope'', h_page = 1 \<rparr>,
      \<lparr> h_level = ''H3'', h_text = ''Intro'', h_page = 1 \<rparr>]"
proof -
  have m: "median (map fontsize repeated_heading_blocks) = 12"
    by (simp add: repeated_heading_blocks_def plain_block_def median_12_3)
  have hs: "map (\<lambda>b. \<lparr> h_level = determine_heading_level b 12,
                       h_text = block_text b, h_page = page b \<rparr>) repeated_heading_blocks =
            [\<lparr> h_level = ''H3'', h_text = ''Intro'', h_page = 1 \<rparr>,
             \<lparr> h_level = ''H3'', h_text = ''Scope'', h_page = 1 \<rparr>,
             \<lparr> h_level = ''H3'', h_text = ''Intro'', h_page = 1 \<rparr>]"
    by (simp add: repeated_heading_blocks_def level_plain) (simp add: plain_block_def)
  have a: "extract_headings repeated_heading_blocks 12 1 =
     Inr [\<lparr> h_level = ''H3'', h_text = ''Intro'', h_page = 1 \<rparr>,
          \<lparr> h_level = ''H3'', h_text = ''Intro'', h_page = 1 \<rparr>,
          \<lparr> h_level = ''H3'', h_text = ''Scope'', h_page = 1 \<rparr>]"
    unfolding extract_headings_def Let_def candidates_repeated hs
    by (simp add: key_intro key_scope)
  have b: "headings_by_position repeated_heading_blocks 12 1 =
     [\<lparr> h_level = ''H3'', h_text = ''Intro'', h_page = 1 \<rparr>,
      \<lparr> h_level = ''H3'', h_text = ''Scope'', h_page = 1 \<rparr>,
      \<lparr> h_level = ''H3'', h_text = ''Intro'', h_page = 1 \<rparr>]"
    unfolding headings_by_position_def candidates_repeated
    by (simp add: repeated_heading_blocks_def level_plain) (simp add: plain_block_def)
  show ?thesis unfolding m using a b by simp
qed

section \<open>Scoring\<close>

text \<open>
  C3: the composite score of a section is 0.55 times the similarity, plus 0.25 times the
  level weight (H1 1.0, H2 0.7, H3 0.4, title 1.2, any other level 0.5), plus 0.15 times
  the recency constant 0.5, plus 0.05 times the content boost. Floating-point numbers are
  read as reals.
\<close>

theorem section_score_formula:
  "calculate_section_score s similarity query =
     0.55 * similarity
     + 0.25 * (if level s = ''H1'' then 1.0
               else if level s = ''H2'' then 0.7
               else if level s = ''H3'' then 0.4
               else if level s = ''title'' then 1.2
               else 0.5)
     + 0.15 * 0.5
     + 0.05 * calculate_content_boost (section_text s) query"
  by (simp add: calculate_section_score_def weights_def level_weights_def dict_get_def Let_def)

section \<open>Validation\<close>

lemma validate_pdf_iff:
  "validate_pdf f \<longleftrightarrow>
     pdf_exists f \<and> pdf_st_size f \<noteq> 0 \<and>
     (\<exists>doc. pdf_doc f = Some doc \<and> 0 < length doc \<and> length doc \<le> 50)"
  by (auto simp: validate_pdf_def Let_def split: option.splits)

text \<open>
  C10: \<open>validate_pdf\<close> is false for a file that does not exist, is empty, cannot be
  opened, or has no page or more than 50 pages; and \<open>process_round_1b\<close> gives the same
  result with or without a file that \<open>validate_pdf\<close> rejects, so such a file reaches
  neither outline extraction nor ranking.
\<close>

theorem validate_pdf_rejects:
  "(\<not> pdf_exists f \<or> pdf_st_size f = 0 \<or> pdf_doc f = None \<or>
      (\<exists>doc. pdf_doc f = Some doc \<and> (length doc = 0 \<or> 50 < length doc))
    \<longrightarrow> \<not> validate_pdf f)
   \<and> (\<not> validate_pdf f \<longrightarrow>
        process_round_1b calculate_similarity (xs @ f # ys) persona job =
        process_round_1b calculate_similarity (xs @ ys) persona job)"
proof (intro conjI impI)
  assume "\<not> pdf_exists f \<or> pdf_st_size f = 0 \<or> pdf_doc f = None \<or>
      (\<exists>doc. pdf_doc f = Some doc \<and> (length doc = 0 \<or> 50 < length doc))"
  then show "\<not> validate_pdf f" by (auto simp: validate_pdf_iff)
next
  assume "\<not> validate_pdf f"
  then have "filter validate_pdf (xs @ f # ys) = filter validate_pdf (xs @ ys)" by simp
  then show "process_round_1b calculate_similarity (xs @ f # ys) persona job =
        process_round_1b calculate_similarity (xs @ ys) persona job"
    by (simp add: process_round_1b_def)
qed

theorem validate_pdf_rejects_witness:
  "\<not> validate_pdf long_pdf
   \<and> process_round_1b zero_similarity [long_pdf] ''analyst'' ''review'' =
       Some (Inl \<lparr> err_error = ValueError ''No valid PDFs found'', err_persona = ''analyst'',
                   err_job = ''review'', err_round = ''1B'' \<rparr>)"
proof -
  have l: "pdf_doc long_pdf = Some (replicate 51 blank_page)
           \<and> (50::nat) < length (replicate 51 blank_page)"
    by (simp add: long_pdf_def)
  then have h: "\<not> pdf_exists long_pdf \<or> pdf_st_size long_pdf = 0 \<or> pdf_doc long_pdf = None \<or>
      (\<exists>doc. pdf_doc long_pdf = Some doc \<and> (length doc = 0 \<or> 50 < length doc))"
    by blast
  have r: "process_round_1b zero_similarity [] ''analyst'' ''review'' =
       Some (Inl \<lparr> err_error = ValueError ''No valid PDFs found'', err_persona = ''analyst'',
                   err_job = ''review'', err_round = ''1B'' \<rparr>)"
    by (simp add: process_round_1b_def)
  show ?thesis
    using validate_pdf_rejects [of long_pdf zero_similarity "[]" "[]" "''analyst''" "''review''"] h r
    by simp
qed

section \<open>Whitespace normalisation\<close>

lemma split_words:
  "w \<in> set (split t) \<Longrightarrow> w \<noteq> [] \<and> (\<forall>c \<in> set w. \<not> isspace c)"
proof (induction t arbitrary: w rule: split.induct)
  case 1
  then show ?case by simp
next
  case (2 c cs)
  show ?case
  proof (cases "isspace c")
    case True
    with 2 show ?thesis by simp
  next
    case False
    from 2(3) False
    have "w = c # takeWhile (\<lambda>x. \<not> isspace x) cs
          \<or> w \<in> set (split (dropWhile (\<lambda>x. \<not> isspace x) cs))"
      by simp
    then show ?thesis
    proof
      assume w: "w = c # takeWhile (\<lambda>x. \<not> isspace x) cs"
      have "\<forall>x \<in> set (takeWhile (\<lambda>x. \<not> isspace x) cs). \<not> isspace x"
        by (auto dest: set_takeWhileD)
      then show ?thesis using w False by simp
    next
      assume "w \<in> set (split (dropWhile (\<lambda>x. \<not> isspace x) cs))"
      then show ?thesis by (rule 2(2)[OF False])
    qed
  qed
qed

lemma split_no_space: "\<forall>y \<in> set xs. \<not> isspace y \<Longrightarrow> xs \<noteq> [] \<Longrightarrow> split xs = [xs]"
proof (cases xs)
  case Nil
  assume "xs \<noteq> []"
  with Nil show ?thesis by simp
next
  case (Cons x ys)
  assume a: "\<forall>y \<in> set xs. \<not> isspace y"
  then have t: "takeWhile (\<lambda>y. \<not> isspace y) ys = ys"
    and d: "dropWhile (\<lambda>y. \<not> isspace y) ys = []"
    and x: "\<not> isspace x"
    using Cons by simp_all
  show ?thesis unfolding Cons by (simp only: split.simps t d x if_False)
qed

lemma split_append_space:
  "isspace c \<Longrightarrow> split (a @ c # b) = split a @ split b"
proof (induction a rule: split.induct)
  case 1
  then show ?case by simp
next
  case (2 x xs)
  let ?P = "\<lambda>y. \<not> isspace y"
  show ?case
  proof (cases "isspace x")
    case True
    then have "split ((x # xs) @ c # b) = split (xs @ c # b)" by simp
    also have "\<dots> = split xs @ split b" using 2(1)[OF True 2(3)] .
    also have "split xs = split (x # xs)" using True by simp
    finally show ?thesis .
  next
    case False
    have l: "split ((x # xs) @ c # b) =
             (x # takeWhile ?P (xs @ c # b)) # split (dropWhile ?P (xs @ c # b))"
      using False by simp
    have r: "split (x # xs) = (x # takeWhile ?P xs) # split (dropWhile ?P xs)"
      using False by simp
    show ?thesis
    proof (cases "\<forall>y \<in> set xs. \<not> isspace y")
      case True
      have t1: "takeWhile ?P (xs @ c # b) = xs"
        using True 2(3) by (simp add: takeWhile_append2)
      have d1: "dropWhile ?P (xs @ c # b) = c # b"
        using True 2(3) by (simp add: dropWhile_append2)
      have t2: "takeWhile ?P xs = xs" using True by simp
      have d2: "dropWhile ?P xs = []" using True by simp
      have sb: "split (c # b) = split b" using 2(3) by simp
      show ?thesis unfolding l r t1 d1 t2 d2 sb by simp
    next
      case ex: False
      then obtain y where y: "y \<in> set xs" "\<not> ?P y" by blast
      have t1: "takeWhile ?P (xs @ c # b) = takeWhile ?P xs"
        using y by (rule takeWhile_append1)
      have d1: "dropWhile ?P (xs @ c # b) = dropWhile ?P xs @ c # b"
        using y by (rule dropWhile_append1)
      have ih: "split (dropWhile ?P xs @ c # b) = split (dropWhile ?P xs) @ split b"
        using 2(2)[OF False 2(3)] .
      show ?thesis unfolding l r t1 d1 ih by simp
    qed
  qed
qed

lemma split_pages:
  "isspace c \<Longrightarrow> split (concat (map (\<lambda>t. t @ [c]) ts)) = concat (map split ts)"
proof (induction ts)
  case Nil
  then show ?case by simp
next
  case (Cons t ts)
  have "split (concat (map (\<lambda>t. t @ [c]) (t # ts))) =
        split (t @ c # concat (map (\<lambda>t. t @ [c]) ts))" by simp
  also have "\<dots> = split t @ split (concat (map (\<lambda>t. t @ [c]) ts))"
    using Cons(2) by (rule split_append_space)
  also have "\<dots> = split t @ concat (map split ts)" using Cons by simp
  finally show ?case by simp
qed

lemma set_join: "set (join sep ws) \<subseteq> set sep \<union> \<Union> (set ` set ws)"
  by (induction sep ws rule: join.induct) auto

lemma join_Nil: "join sep ws = [] \<Longrightarrow> w \<in> set ws \<Longrightarrow> w = []"
  by (induction sep ws rule: join.induct) auto

lemma hd_join: "ws \<noteq> [] \<Longrightarrow> hd ws \<noteq> [] \<Longrightarrow> hd (join sep ws) = hd (hd ws)"
  by (induction sep ws rule: join.induct) auto

lemma last_join:
  "ws \<noteq> [] \<Longrightarrow> last ws \<noteq> [] \<Longrightarrow> last (join sep ws) = last (last ws)"
proof (induction sep ws rule: join.induct)
  case (1 sep)
  then show ?case by simp
next
  case (2 sep w)
  then show ?case by simp
next
  case (3 sep w v ws)
  have ne: "join sep (v # ws) \<noteq> []"
  proof
    assume "join sep (v # ws) = []"
    then have "last (v # ws) = []" by (rule join_Nil) simp
    with 3(3) show False by simp
  qed
  have "last (join sep (w # v # ws)) = last (join sep (v # ws))"
    using ne by simp
  also have "\<dots> = last (last (v # ws))" using 3 by simp
  finally show ?case by simp
qed

lemma strip_id:
  assumes "s = [] \<or> (\<not> isspace (hd s) \<and> \<not> isspace (last s))"
  shows "strip s = s"
proof (cases s)
  case Nil
  then show ?thesis by (simp add: strip_def)
next
  case (Cons x xs)
  with assms have h: "\<not> isspace x" and l: "\<not> isspace (last s)" by auto
  have a: "dropWhile isspace s = s" using Cons h by simp
  have "rev s \<noteq> []" using Cons by simp
  then obtain y ys where r: "rev s = y # ys" by (cases "rev s") auto
  have "y = last s" using r Cons by (metis hd_rev list.sel(1))
  then have "\<not> isspace y" using l by simp
  then have "dropWhile isspace (y # ys) = y # ys" by simp
  then have b: "dropWhile isspace (rev s) = rev s" unfolding r .
  show ?thesis unfolding strip_def a b by simp
qed

lemma replace_char_id: "old \<notin> set s \<Longrightarrow> replace_char old new s = s"
  by (induction s) (auto simp: replace_char_def)

lemma clean_text_words: "clean_text t = join '' '' (split t)"
proof -
  let ?j = "join '' '' (split t)"
  have words: "w \<noteq> [] \<and> (\<forall>c \<in> set w. \<not> isspace c)" if "w \<in> set (split t)" for w
    using that by (rule split_words)
  have sp: "c = CHR '' ''" if "c \<in> set ?j" "isspace c" for c
  proof -
    from that(1) set_join[of "'' ''" "split t"]
    have "c \<in> set '' '' \<or> (\<exists>w \<in> set (split t). c \<in> set w)" by auto
    then show ?thesis
    proof
      assume "c \<in> set '' ''"
      then show ?thesis by simp
    next
      assume "\<exists>w \<in> set (split t). c \<in> set w"
      then obtain w where "w \<in> set (split t)" "c \<in> set w" by blast
      with words[of w] that(2) show ?thesis by blast
    qed
  qed
  have nl: "CHR 0x0A \<notin> set ?j"
  proof
    assume a: "CHR 0x0A \<in> set ?j"
    have "isspace (CHR 0x0A)" by (simp add: isspace_def)
    from sp[OF a this] show False by simp
  qed
  have tab: "CHR 0x09 \<notin> set ?j"
  proof
    assume a: "CHR 0x09 \<in> set ?j"
    have "isspace (CHR 0x09)" by (simp add: isspace_def)
    from sp[OF a this] show False by simp
  qed
  have r1: "replace_char (CHR 0x0A) CHR '' '' ?j = ?j"
    using nl by (rule replace_char_id)
  have r2: "replace_char (CHR 0x09) CHR '' '' ?j = ?j"
    using tab by (rule replace_char_id)
  have s: "strip ?j = ?j"
  proof (cases "split t = []")
    case True
    then show ?thesis by (simp add: strip_def)
  next
    case False
    then have h: "hd (split t) \<in> set (split t)" and l: "last (split t) \<in> set (split t)"
      by simp_all
    from words[OF h] have hne: "hd (split t) \<noteq> []" and hs: "\<not> isspace (hd (hd (split t)))"
      by auto
    from words[OF l] have lne: "last (split t) \<noteq> []" and ls: "\<not> isspace (last (last (split t)))"
      by auto
    have "\<not> isspace (hd ?j)" using hd_join[OF False hne, of "'' ''"] hs by simp
    moreover have "\<not> isspace (last ?j)" using last_join[OF False lne, of "'' ''"] ls by simp
    ultimately show ?thesis by (intro strip_id) simp
  qed
  show ?thesis unfolding clean_text_def Let_def r1 r2 s ..
qed

lemma chunk_text_default_total: "\<exists>cs. chunk_text t 200 50 = Some cs"
proof -
  have "(50::int) < 200" by simp
  from chunk_loop_total[OF this]
  obtain y where "chunk_loop (split t) 200 50 0 [] = Some y" by blast
  then show ?thesis by (simp add: chunk_text_def Let_def)
qed

lemma those_map_Some:
  assumes "\<And>x. x \<in> set xs \<Longrightarrow> f x = Some (g x)"
  shows "those (map f xs) = Some (map g xs)"
  using assms by (induction xs) simp_all

section \<open>Section segmentation\<close>

lemma pages_text_words:
  assumes "1 \<le> start_page"
  shows "split (pages_text doc start_page end_page) =
           concat (map (\<lambda>p. split (page_text (doc ! (p - 1))))
                     [start_page..<Suc (min end_page (length doc))])"
proof -
  let ?m = "min end_page (length doc)"
  have nl: "isspace (CHR 0x0A)" by (simp add: isspace_def)
  have e: "pages_text doc start_page end_page =
          concat (map (\<lambda>t. t @ [CHR 0x0A])
                    (map (\<lambda>k. page_text (doc ! k)) [start_page - 1..<?m]))"
    by (simp add: pages_text_def comp_def)
  have "split (pages_text doc start_page end_page) =
          concat (map split (map (\<lambda>k. page_text (doc ! k)) [start_page - 1..<?m]))"
    unfolding e by (rule split_pages[OF nl])
  also have "\<dots> = concat (map (\<lambda>k. split (page_text (doc ! k))) [start_page - 1..<?m])"
    by (simp add: comp_def)
  also have "map (\<lambda>k. split (page_text (doc ! k))) [start_page - 1..<?m] =
             map (\<lambda>p. split (page_text (doc ! (p - 1)))) (map Suc [start_page - 1..<?m])"
    by (simp add: comp_def)
  also have "map Suc [start_page - 1..<?m] = [start_page..<Suc ?m]"
    using assms by (simp add: map_Suc_upt)
  finally show ?thesis .
qed

lemma extract_section_text:
  assumes "1 \<le> h_page (outl ! i)"
  shows "\<exists>s. extract_section doc outl i = Some s \<and>
           section_title s = h_text (outl ! i) \<and>
           section_text s =
             join '' '' (concat (map (\<lambda>p. split (page_text (doc ! (p - 1))))
               [h_page (outl ! i)..<
                Suc (min (if i + 1 < length outl then h_page (outl ! (i + 1)) else length doc)
                         (length doc))]))"
proof -
  let ?e = "if i + 1 < length outl then h_page (outl ! (i + 1)) else length doc"
  let ?t = "clean_text (pages_text doc (h_page (outl ! i)) ?e)"
  obtain cs where cs: "chunk_text ?t 200 50 = Some cs"
    using chunk_text_default_total by blast
  have "?t = join '' '' (split (pages_text doc (h_page (outl ! i)) ?e))"
    by (rule clean_text_words)
  then have t: "?t = join '' '' (concat (map (\<lambda>p. split (page_text (doc ! (p - 1))))
               [h_page (outl ! i)..<Suc (min ?e (length doc))]))"
    unfolding pages_text_words[OF assms] .
  show ?thesis
    unfolding extract_section_def Let_def cs option.case
    using t by simp
qed

lemma those_map_ex:
  assumes "\<forall>x \<in> set xs. \<exists>y. f x = Some y \<and> P x y"
  shows "\<exists>ys. those (map f xs) = Some ys \<and> length ys = length xs \<and>
              (\<forall>i < length xs. P (xs ! i) (ys ! i))"
  using assms
proof (induction xs)
  case Nil
  then show ?case by simp
next
  case (Cons x xs)
  then obtain y where y: "f x = Some y" "P x y" by auto
  from Cons obtain ys where ys: "those (map f xs) = Some ys" "length ys = length xs"
    "\<forall>i < length xs. P (xs ! i) (ys ! i)" by auto
  have "those (map f (x # xs)) = Some (y # ys)" using y(1) ys(1) by simp
  moreover have "length (y # ys) = length (x # xs)" using ys(2) by simp
  moreover have "\<forall>i < length (x # xs). P ((x # xs) ! i) ((y # ys) ! i)"
  proof (intro allI impI)
    fix i assume "i < length (x # xs)"
    then show "P ((x # xs) ! i) ((y # ys) ! i)"
      using y(2) ys(3) by (cases i) simp_all
  qed
  ultimately show ?case by blast
qed

lemma clean_two_pages_1_2: "clean_text (pages_text two_pages (Suc 0) 2) = ''alpha beta''"
  by (simp add: clean_text_words pages_text_def two_pages_def isspace_def upt_conv_Cons)

lemma clean_two_pages_2_2: "clean_text (pages_text two_pages 2 2) = ''beta''"
  by (simp add: clean_text_words pages_text_def two_pages_def isspace_def upt_conv_Cons)

lemma chunk_alpha_beta: "chunk_text ''alpha beta'' 200 50 = Some [''alpha beta'']"
  by (simp add: chunk_text_def isspace_def)

lemma chunk_beta: "chunk_text ''beta'' 200 50 = Some [''beta'']"
  by (simp add: chunk_text_def isspace_def)

lemma extract_section_two_0:
  "extract_section two_pages two_headings 0 =
     Some \<lparr> section_title = ''alpha'', level = ''H3'', section_page = 1,
            section_text = ''alpha beta'', chunks = [''alpha beta''], importance_rank = 0,
            relevance_score = None, document = None \<rparr>"
proof -
  have h: "h_page (two_headings ! 0) = 1" "h_page (two_headings ! (0 + 1)) = 2"
    "length two_headings = 2" "h_text (two_headings ! 0) = ''alpha''"
    "h_level (two_headings ! 0) = ''H3''"
    by (simp_all add: two_headings_def)
  show ?thesis
    unfolding extract_section_def Let_def h
    by (simp add: clean_two_pages_1_2 chunk_alpha_beta)
qed

lemma extract_section_two_1:
  "extract_section two_pages two_headings (Suc 0) =
     Some \<lparr> section_title = ''beta'', level = ''H3'', section_page = 2,
            section_text = ''beta'', chunks = [''beta''], importance_rank = 0,
            relevance_score = None, document = None \<rparr>"
proof -
  have h: "h_page (two_headings ! Suc 0) = 2"
    "length two_headings = 2" "h_text (two_headings ! Suc 0) = ''beta''"
    "h_level (two_headings ! Suc 0) = ''H3''" "length two_pages = 2"
    by (simp_all add: two_headings_def two_pages_def)
  show ?thesis
    unfolding extract_section_def Let_def h
    by (simp add: clean_two_pages_2_2 chunk_beta)
qed

lemma extract_full_sections_two:
  "extract_full_sections two_page_pdf \<lparr> title = ''alpha'', outline = two_headings \<rparr> =
     Some [\<lparr> section_title = ''alpha'', level = ''H3'', section_page = 1,
              section_text = ''alpha beta'', chunks = [''alpha beta''], importance_rank = 0,
              relevance_score = None, document = None \<rparr>,
           \<lparr> section_title = ''beta'', level = ''H3'', section_page = 2,
              section_text = ''beta'', chunks = [''beta''], importance_rank = 0,
              relevance_score = None, document = None \<rparr>]"
proof -
  have n: "[0..<length two_headings] = [0, 1]"
    by (simp add: two_headings_def upt_conv_Cons)
  show ?thesis
    by (simp add: extract_full_sections_def two_page_pdf_def n
        extract_section_two_0 extract_section_two_1)
qed

text \<open>
  In the two-page document the first section holds the text of both pages, because the
  loop of \<open>_extract_full_sections\<close> runs up to and including the page of the next
  heading; the half-open interval would give the first page only.
\<close>

theorem section_text_half_open_counterexample:
  "map_option (map section_text)
     (extract_full_sections two_page_pdf \<lparr> title = ''alpha'', outline = two_headings \<rparr>)
     = Some [''alpha beta'', ''beta'']
   \<and> half_open_section_text two_pages two_headings 0 = ''alpha''"
proof -
  have "half_open_section_text two_pages two_headings 0 = ''alpha''"
    by (simp add: half_open_section_text_def two_headings_def two_pages_def
        clean_text_words isspace_def upt_conv_Cons)
  then show ?thesis by (simp add: extract_full_sections_two)
qed

text \<open>
  C2: for a document that opens and headings on pages numbered from 1, every heading
  gets a section, and the text of section \<open>i\<close> is the words of the page texts of the
  pages from the heading's page up to and including \<open>min end_page page_count\<close>, joined
  by single blanks, where \<open>end_page\<close> is the page of the next heading, or the page count
  for the last heading.
\<close>

theorem extract_full_sections_text:
  assumes "pdf_doc f = Some doc" "\<forall>h \<in> set (outline r). 1 \<le> h_page h"
  shows "\<exists>secs. extract_full_sections f r = Some secs \<and>
           length secs = length (outline r) \<and>
           (\<forall>i < length (outline r).
              section_title (secs ! i) = h_text (outline r ! i) \<and>
              section_text (secs ! i) =
                join '' '' (concat (map (\<lambda>p. split (page_text (doc ! (p - 1))))
                  [h_page (outline r ! i)..<
                   Suc (min (if i + 1 < length (outline r) then h_page (outline r ! (i + 1))
                             else length doc)
                            (length doc))])))"
proof -
  let ?n = "length (outline r)"
  let ?P = "\<lambda>i s. section_title s = h_text (outline r ! i) \<and>
              section_text s =
                join '' '' (concat (map (\<lambda>p. split (page_text (doc ! (p - 1))))
                  [h_page (outline r ! i)..<
                   Suc (min (if i + 1 < length (outline r) then h_page (outline r ! (i + 1))
                             else length doc)
                            (length doc))]))"
  have "\<forall>i \<in> set [0..<?n]. \<exists>s. extract_section doc (outline r) i = Some s \<and> ?P i s"
  proof
    fix i assume "i \<in> set [0..<?n]"
    then have "i < ?n" by simp
    then have "1 \<le> h_page (outline r ! i)" using assms(2) by simp
    then show "\<exists>s. extract_section doc (outline r) i = Some s \<and> ?P i s"
      by (rule extract_section_text)
  qed
  from those_map_ex[of "[0..<?n]" "extract_section doc (outline r)" ?P, OF this]
  obtain secs where s: "those (map (extract_section doc (outline r)) [0..<?n]) = Some secs"
    "length secs = length [0..<?n]" "\<forall>i < length [0..<?n]. ?P ([0..<?n] ! i) (secs ! i)"
    by blast
  have "extract_full_sections f r = Some secs"
    using assms(1) s(1) by (simp add: extract_full_sections_def)
  moreover have "length secs = ?n" using s(2) by simp
  moreover have "\<forall>i < ?n. ?P i (secs ! i)"
  proof (intro allI impI)
    fix i assume i: "i < ?n"
    then have "?P ([0..<?n] ! i) (secs ! i)" using s(3) by simp
    then show "?P i (secs ! i)" using i by simp
  qed
  ultimately show ?thesis by blast
qed

lemma split_alpha_beta: "split ''alpha beta'' = [''alpha'', ''beta'']"
  by (simp add: isspace_def)

lemma split_alpha: "split ''alpha'' = [''alpha'']"
  by (simp add: isspace_def)

lemma split_beta: "split ''beta'' = [''beta'']"
  by (simp add: isspace_def)

theorem extract_full_sections_text_witness:
  "\<exists>secs. extract_full_sections two_page_pdf \<lparr> title = ''alpha'', outline = two_headings \<rparr>
             = Some secs
          \<and> length secs = 2
          \<and> section_text (secs ! 0) = ''alpha beta''
          \<and> section_text (secs ! 1) = ''beta''"
proof -
  let ?r = "\<lparr> title = ''alpha'', outline = two_headings \<rparr>"
  have d: "pdf_doc two_page_pdf = Some two_pages" by (simp add: two_page_pdf_def)
  have p: "\<forall>h \<in> set (outline ?r). 1 \<le> h_page h"
    by (simp add: two_headings_def)
  from extract_full_sections_text[OF d p]
  obtain secs where s: "extract_full_sections two_page_pdf ?r = Some secs"
    and l: "length secs = length (outline ?r)"
    and t: "\<forall>i < length (outline ?r).
              section_title (secs ! i) = h_text (outline ?r ! i) \<and>
              section_text (secs ! i) =
                join '' '' (concat (map (\<lambda>p. split (page_text (two_pages ! (p - 1))))
                  [h_page (outline ?r ! i)..<
                   Suc (min (if i + 1 < length (outline ?r) then h_page (outline ?r ! (i + 1))
                             else length two_pages)
                            (length two_pages))]))"
    by blast
  have n: "length (outline ?r) = 2" by (simp add: two_headings_def)
  have r0: "[h_page (outline ?r ! 0)..<
             Suc (min (if 0 + 1 < length (outline ?r) then h_page (outline ?r ! (0 + 1))
                       else length two_pages) (length two_pages))] = [1, 2]"
    by (simp add: two_headings_def two_pages_def upt_conv_Cons)
  have r1: "[h_page (outline ?r ! 1)..<
             Suc (min (if 1 + 1 < length (outline ?r) then h_page (outline ?r ! (1 + 1))
                       else length two_pages) (length two_pages))] = [2]"
    by (simp add: two_headings_def two_pages_def upt_conv_Cons)
  have "0 < length (outline ?r)" unfolding n by simp
  with t have "section_text (secs ! 0) =
      join '' '' (concat (map (\<lambda>p. split (page_text (two_pages ! (p - 1)))) [1, 2]))"
    unfolding r0[symmetric] by blast
  then have t0: "section_text (secs ! 0) = ''alpha beta''"
    by (simp add: two_pages_def isspace_def)
  have "1 < length (outline ?r)" unfolding n by simp
  with t have "section_text (secs ! 1) =
      join '' '' (concat (map (\<lambda>p. split (page_text (two_pages ! (p - 1)))) [2]))"
    unfolding r1[symmetric] by blast
  then have t1: "section_text (secs ! 1) = ''beta''"
    by (simp add: two_pages_def isspace_def)
  show ?thesis using s l n t0 t1 by auto
qed

end
